theory Spec2Isabelle
  imports Complex_Main
begin

text \<open>
  The forward kinematics of a planar linkage: a store of points, lengths and angles, two
  kinds of segments (motor and passive) that compute one point each from values of the
  store, and a driver that sweeps over the segments until a sweep makes no progress.
  The definitions follow the revision of \<open>LinkageGraph.js\<close> whose \<open>forward\<close> functions are
  implemented; the other revision has the same \<open>getInput\<close>, \<open>forwardSegment\<close>,
  \<open>forwardConfig\<close> and \<open>forwardLinkage\<close> and constant \<open>forward\<close> functions.
\<close>

section \<open>Numbers\<close>

text \<open>
  A JavaScript number is modelled as a real number or \<open>NaN\<close>: rounding, overflow and
  signed zeros are left out, the undefined results of the operations are kept. The only
  division of the program feeds \<open>Math.acos\<close>, which maps both infinities to \<open>NaN\<close>, so a
  quotient by zero is \<open>NaN\<close> here whatever its numerator. The operations of this section
  are those of the exact arithmetic; the passive segment, whose result depends on the
  rounding of a quotient, is also defined over an arithmetic that rounds (section
  \<open>Rounded arithmetic\<close>).
\<close>

datatype number = Num real | NaN

fun js_add :: "number \<Rightarrow> number \<Rightarrow> number" where
  "js_add (Num a) (Num b) = Num (a + b)"
| "js_add _ _ = NaN"

fun js_sub :: "number \<Rightarrow> number \<Rightarrow> number" where
  "js_sub (Num a) (Num b) = Num (a - b)"
| "js_sub _ _ = NaN"

fun js_mul :: "number \<Rightarrow> number \<Rightarrow> number" where
  "js_mul (Num a) (Num b) = Num (a * b)"
| "js_mul _ _ = NaN"

fun js_div :: "number \<Rightarrow> number \<Rightarrow> number" where
  "js_div (Num a) (Num b) = (if b = 0 then NaN else Num (a / b))"
| "js_div _ _ = NaN"

fun js_sq :: "number \<Rightarrow> number" where
  "js_sq (Num a) = Num (a\<^sup>2)"
| "js_sq NaN = NaN"

text \<open>\<open>Math.atan2\<close> on the reals: the angle of the vector \<open>(x, y)\<close> in \<open>(-pi, pi]\<close>,
  and 0 at the origin.\<close>

definition atan2 :: "real \<Rightarrow> real \<Rightarrow> real" where
  "atan2 y x =
     (if 0 < x then arctan (y / x)
      else if x < 0 then (if 0 \<le> y then arctan (y / x) + pi else arctan (y / x) - pi)
      else if 0 < y then pi / 2
      else if y < 0 then - (pi / 2)
      else 0)"

fun Math_atan2 :: "number \<Rightarrow> number \<Rightarrow> number" where
  "Math_atan2 (Num b) (Num a) = Num (atan2 b a)"
| "Math_atan2 _ _ = NaN"

fun Math_sqrt :: "number \<Rightarrow> number" where
  "Math_sqrt (Num a) = (if a < 0 then NaN else Num (sqrt a))"
| "Math_sqrt NaN = NaN"

fun Math_acos :: "number \<Rightarrow> number" where
  "Math_acos (Num a) = (if - 1 \<le> a \<and> a \<le> 1 then Num (arccos a) else NaN)"
| "Math_acos NaN = NaN"

fun Math_cos :: "number \<Rightarrow> number" where
  "Math_cos (Num a) = Num (cos a)"
| "Math_cos NaN = NaN"

fun Math_sin :: "number \<Rightarrow> number" where
  "Math_sin (Num a) = Num (sin a)"
| "Math_sin NaN = NaN"

section \<open>Data model\<close>

type_synonym Ref = string

record Point =
  pt_x :: number
  pt_y :: number

record Config =
  points :: "Ref \<rightharpoonup> Point"
  lengths :: "Ref \<rightharpoonup> number"
  angles :: "Ref \<rightharpoonup> number"

text \<open>The four operations of a segment kind. \<open>getInput\<close> may throw (\<open>Inl\<close>), return
  \<open>null\<close> (\<open>Inr None\<close>) or return the input.\<close>

datatype error = NoValueForKey Ref | FailedToComputeAllSegments

record ('i, 'o, 'r) Segment =
  getInput :: "Config \<Rightarrow> 'r \<Rightarrow> error + 'i option"
  forward :: "'i \<Rightarrow> 'o"
  setOutput :: "Config \<Rightarrow> 'r \<Rightarrow> 'o \<Rightarrow> Config"
  hasSetOutput :: "Config \<Rightarrow> 'r \<Rightarrow> bool"

record MotorSegmentIn =
  m_p0 :: Point
  m_p1 :: Point
  m_theta :: number
  m_len :: number

record MotorSegmentOut =
  m_p2 :: Point

record PassiveSegmentIn =
  p_p0 :: Point
  p_p1 :: Point
  p_len0 :: number
  p_len1 :: number

record PassiveSegmentOut =
  p_p2 :: Point

text \<open>The reference sets: one reference for each input and output role of the kind.\<close>

record MotorRefs =
  mr_p0 :: Ref
  mr_p1 :: Ref
  mr_p2 :: Ref
  mr_theta :: Ref
  mr_len :: Ref

record PassiveRefs =
  pr_p0 :: Ref
  pr_p1 :: Ref
  pr_p2 :: Ref
  pr_len0 :: Ref
  pr_len1 :: Ref

text \<open>\<open>{t: 'm', refs}\<close> and \<open>{t: 'p', refs}\<close>.\<close>

datatype SegmentRefs = M MotorRefs | P PassiveRefs

record Linkage =
  staticPoints :: "Ref \<rightharpoonup> Point"
  linkage_lengths :: "Ref \<rightharpoonup> number"
  segments :: "SegmentRefs list"

section \<open>Segment kinds\<close>

text \<open>The strict lookup: the throw of the source is the error value.\<close>

definition getX :: "(Ref \<rightharpoonup> 'v) \<Rightarrow> Ref \<Rightarrow> error + 'v" where
  "getX m key = (case m key of None \<Rightarrow> Inl (NoValueForKey key) | Some v \<Rightarrow> Inr v)"

definition MotorSegment_getInput :: "Config \<Rightarrow> MotorRefs \<Rightarrow> error + MotorSegmentIn option" where
  "MotorSegment_getInput config refs =
     (case getX (points config) (mr_p0 refs) of Inl e \<Rightarrow> Inl e | Inr a \<Rightarrow>
     (case getX (points config) (mr_p1 refs) of Inl e \<Rightarrow> Inl e | Inr b \<Rightarrow>
     (case getX (angles config) (mr_theta refs) of Inl e \<Rightarrow> Inl e | Inr t \<Rightarrow>
     (case getX (lengths config) (mr_len refs) of Inl e \<Rightarrow> Inl e | Inr l \<Rightarrow>
        Inr (Some \<lparr>m_p0 = a, m_p1 = b, m_theta = t, m_len = l\<rparr>)))))"

definition MotorSegment_forward :: "MotorSegmentIn \<Rightarrow> MotorSegmentOut" where
  "MotorSegment_forward i =
     (let alpha = Math_atan2 (js_sub (pt_y (m_p1 i)) (pt_y (m_p0 i)))
                             (js_sub (pt_x (m_p1 i)) (pt_x (m_p0 i)))
      in \<lparr>m_p2 =
            \<lparr>pt_x = js_add (pt_x (m_p0 i)) (js_mul (m_len i) (Math_cos (js_add alpha (m_theta i)))),
             pt_y = js_add (pt_y (m_p0 i)) (js_mul (m_len i) (Math_sin (js_add alpha (m_theta i))))\<rparr>\<rparr>)"

definition MotorSegment_setOutput :: "Config \<Rightarrow> MotorRefs \<Rightarrow> MotorSegmentOut \<Rightarrow> Config" where
  "MotorSegment_setOutput config refs output =
     config\<lparr>points := (points config)(mr_p2 refs \<mapsto> m_p2 output)\<rparr>"

text \<open>\<open>!!config.points.get(refs.p2)\<close>: a stored point is an object, which is truthy
  whatever its coordinates, so the test is whether the reference is bound.\<close>

definition MotorSegment_hasSetOutput :: "Config \<Rightarrow> MotorRefs \<Rightarrow> bool" where
  "MotorSegment_hasSetOutput config refs = (points config (mr_p2 refs) \<noteq> None)"

definition MotorSegment :: "(MotorSegmentIn, MotorSegmentOut, MotorRefs) Segment" where
  "MotorSegment =
     \<lparr>getInput = MotorSegment_getInput, forward = MotorSegment_forward,
      setOutput = MotorSegment_setOutput, hasSetOutput = MotorSegment_hasSetOutput\<rparr>"

definition PassiveSegment_getInput :: "Config \<Rightarrow> PassiveRefs \<Rightarrow> error + PassiveSegmentIn option" where
  "PassiveSegment_getInput config refs =
     (case points config (pr_p0 refs) of
        None \<Rightarrow> Inr None
      | Some a \<Rightarrow>
          (case points config (pr_p1 refs) of
             None \<Rightarrow> Inr None
           | Some b \<Rightarrow>
               (case getX (lengths config) (pr_len0 refs) of Inl e \<Rightarrow> Inl e | Inr l0 \<Rightarrow>
               (case getX (lengths config) (pr_len1 refs) of Inl e \<Rightarrow> Inl e | Inr l1 \<Rightarrow>
                  Inr (Some \<lparr>p_p0 = a, p_p1 = b, p_len0 = l0, p_len1 = l1\<rparr>)))))"

definition PassiveSegment_forward :: "PassiveSegmentIn \<Rightarrow> PassiveSegmentOut" where
  "PassiveSegment_forward i =
     (let alpha = Math_atan2 (js_sub (pt_y (p_p1 i)) (pt_y (p_p0 i)))
                             (js_sub (pt_x (p_p1 i)) (pt_x (p_p0 i)));
          len2 = Math_sqrt (js_add (js_sq (js_sub (pt_y (p_p1 i)) (pt_y (p_p0 i))))
                                   (js_sq (js_sub (pt_x (p_p1 i)) (pt_x (p_p0 i)))));
          theta = Math_acos
                    (js_div (js_sub (js_sub (js_sq (p_len1 i)) (js_sq (p_len0 i))) (js_sq len2))
                            (js_mul (js_mul (Num (- 2)) (p_len0 i)) len2))
      in \<lparr>p_p2 =
            \<lparr>pt_x = js_add (pt_x (p_p0 i)) (js_mul (p_len0 i) (Math_cos (js_add alpha theta))),
             pt_y = js_add (pt_y (p_p0 i)) (js_mul (p_len0 i) (Math_sin (js_add alpha theta)))\<rparr>\<rparr>)"

definition PassiveSegment_setOutput :: "Config \<Rightarrow> PassiveRefs \<Rightarrow> PassiveSegmentOut \<Rightarrow> Config" where
  "PassiveSegment_setOutput config refs output =
     config\<lparr>points := (points config)(pr_p2 refs \<mapsto> p_p2 output)\<rparr>"

definition PassiveSegment_hasSetOutput :: "Config \<Rightarrow> PassiveRefs \<Rightarrow> bool" where
  "PassiveSegment_hasSetOutput config refs = (points config (pr_p2 refs) \<noteq> None)"

definition PassiveSegment :: "(PassiveSegmentIn, PassiveSegmentOut, PassiveRefs) Segment" where
  "PassiveSegment =
     \<lparr>getInput = PassiveSegment_getInput, forward = PassiveSegment_forward,
      setOutput = PassiveSegment_setOutput, hasSetOutput = PassiveSegment_hasSetOutput\<rparr>"

section \<open>The step executor and the driver\<close>

text \<open>The store is mutated in place by the source; here each function returns the
  store it leaves. A throw is \<open>Inl\<close>, and the store at the throw is not returned.\<close>

definition forwardSegment :: "Config \<Rightarrow> ('i, 'o, 'r) Segment \<Rightarrow> 'r \<Rightarrow> error + (bool \<times> Config)" where
  "forwardSegment config SegmentKind refs =
     (if hasSetOutput SegmentKind config refs then Inr (False, config)
      else case getInput SegmentKind config refs of
             Inl e \<Rightarrow> Inl e
           | Inr None \<Rightarrow> Inr (False, config)
           | Inr (Some input) \<Rightarrow>
               Inr (True, setOutput SegmentKind config refs (forward SegmentKind input)))"

text \<open>The body of the \<open>for\<close> loop: the \<open>switch\<close> on the tag of the segment.\<close>

definition forwardSegmentRefs :: "Config \<Rightarrow> SegmentRefs \<Rightarrow> error + (bool \<times> Config)" where
  "forwardSegmentRefs config segment =
     (case segment of
        M refs \<Rightarrow> forwardSegment config MotorSegment refs
      | P refs \<Rightarrow> forwardSegment config PassiveSegment refs)"

text \<open>One sweep: the \<open>for\<close> loop over the segments, threading \<open>progress\<close>.\<close>

fun sweep :: "Config \<Rightarrow> SegmentRefs list \<Rightarrow> bool \<Rightarrow> error + (bool \<times> Config)" where
  "sweep config [] progress = Inr (progress, config)"
| "sweep config (segment # rest) progress =
     (case forwardSegmentRefs config segment of
        Inl e \<Rightarrow> Inl e
      | Inr (b, config') \<Rightarrow> sweep config' rest (b \<or> progress))"

text \<open>The \<open>while (progress)\<close> loop. It is entered with \<open>progress = true\<close>, so each
  call is one iteration; the result is \<open>computedSegments\<close> and the store at the exit.
  \<open>None\<close> is a loop that never stops.\<close>

partial_function (option) sweeps ::
  "Config \<Rightarrow> SegmentRefs list \<Rightarrow> nat \<Rightarrow> (error + (nat \<times> Config)) option" where
  "sweeps config segs computedSegments =
     (case sweep config segs False of
        Inl e \<Rightarrow> Some (Inl e)
      | Inr (progress, config') \<Rightarrow>
          if progress then sweeps config' segs (computedSegments + 1)
          else Some (Inr (computedSegments, config')))"

definition forwardConfig :: "Config \<Rightarrow> SegmentRefs list \<Rightarrow> (error + Config) option" where
  "forwardConfig config segs =
     (case sweeps config segs 0 of
        None \<Rightarrow> None
      | Some (Inl e) \<Rightarrow> Some (Inl e)
      | Some (Inr (computedSegments, config')) \<Rightarrow>
          if computedSegments \<noteq> length segs then Some (Inl FailedToComputeAllSegments)
          else Some (Inr config'))"

definition forwardLinkage :: "Linkage \<Rightarrow> (Ref \<rightharpoonup> number) \<Rightarrow> (error + Config) option" where
  "forwardLinkage linkage angs =
     forwardConfig
       \<lparr>points = staticPoints linkage, lengths = linkage_lengths linkage, angles = angs\<rparr>
       (segments linkage)"

section \<open>Notions of the specification\<close>

text \<open>The reference a segment writes, and whether the store holds it: the test that
  \<open>hasSetOutput\<close> of the segment's kind makes.\<close>

definition output_ref :: "SegmentRefs \<Rightarrow> Ref" where
  "output_ref segment = (case segment of M refs \<Rightarrow> mr_p2 refs | P refs \<Rightarrow> pr_p2 refs)"

definition resolved :: "Config \<Rightarrow> SegmentRefs \<Rightarrow> bool" where
  "resolved config segment =
     (case segment of
        M refs \<Rightarrow> hasSetOutput MotorSegment config refs
      | P refs \<Rightarrow> hasSetOutput PassiveSegment config refs)"

definition unresolved_count :: "Config \<Rightarrow> SegmentRefs list \<Rightarrow> nat" where
  "unresolved_count config segs = length (filter (\<lambda>s. \<not> resolved config s) segs)"

text \<open>The \<open>while\<close> loop cut off after \<open>k\<close> sweeps: \<open>None\<close> when \<open>k\<close> sweeps were
  not enough.\<close>

fun sweepsN :: "nat \<Rightarrow> Config \<Rightarrow> SegmentRefs list \<Rightarrow> nat \<Rightarrow> (error + (nat \<times> Config)) option" where
  "sweepsN 0 config segs computedSegments = None"
| "sweepsN (Suc k) config segs computedSegments =
     (case sweep config segs False of
        Inl e \<Rightarrow> Some (Inl e)
      | Inr (progress, config') \<Rightarrow>
          if progress then sweepsN k config' segs (computedSegments + 1)
          else Some (Inr (computedSegments, config')))"

subsection \<open>The square linkage\<close>

text \<open>The linkage of the test \<open>computes a square linkage\<close>: anchors \<open>p0 = (0,0)\<close> and
  \<open>p1 = (1,0)\<close>, three lengths 1, a motor on \<open>p0, p1\<close> at \<open>pi/2\<close> giving \<open>p2\<close> and a
  passive segment on \<open>p2, p1\<close> giving \<open>p3\<close>.\<close>

definition motor0 :: MotorRefs where
  "motor0 =
     \<lparr>mr_p0 = ''p0'', mr_p1 = ''p1'', mr_p2 = ''p2'', mr_theta = ''theta0'', mr_len = ''len0''\<rparr>"

definition passive1 :: PassiveRefs where
  "passive1 =
     \<lparr>pr_p0 = ''p2'', pr_p1 = ''p1'', pr_p2 = ''p3'', pr_len0 = ''len1'', pr_len1 = ''len2''\<rparr>"

definition squareSegments :: "SegmentRefs list" where
  "squareSegments = [M motor0, P passive1]"

definition squareLinkage :: Linkage where
  "squareLinkage =
     \<lparr>staticPoints = [''p0'' \<mapsto> \<lparr>pt_x = Num 0, pt_y = Num 0\<rparr>,
                     ''p1'' \<mapsto> \<lparr>pt_x = Num 1, pt_y = Num 0\<rparr>],
      linkage_lengths = [''len0'' \<mapsto> Num 1, ''len1'' \<mapsto> Num 1, ''len2'' \<mapsto> Num 1],
      segments = squareSegments\<rparr>"

definition squareAngles :: "Ref \<rightharpoonup> number" where
  "squareAngles = [''theta0'' \<mapsto> Num (pi / 2)]"

text \<open>The store that \<open>forwardLinkage\<close> seeds, the store once \<open>p2\<close> is written, and the
  store once \<open>p3\<close> is written too.\<close>

definition squareConfig :: Config where
  "squareConfig =
     \<lparr>points = staticPoints squareLinkage, lengths = linkage_lengths squareLinkage,
      angles = squareAngles\<rparr>"

definition squareWithP2 :: Config where
  "squareWithP2 =
     squareConfig\<lparr>points := (points squareConfig)(''p2'' \<mapsto> \<lparr>pt_x = Num 0, pt_y = Num 1\<rparr>)\<rparr>"

definition squareResolved :: Config where
  "squareResolved =
     squareWithP2\<lparr>points := (points squareWithP2)(''p3'' \<mapsto> \<lparr>pt_x = Num 1, pt_y = Num 1\<rparr>)\<rparr>"

text \<open>A motor attached to the computed point \<open>p2\<close>.\<close>

definition motorOnP2 :: MotorRefs where
  "motorOnP2 =
     \<lparr>mr_p0 = ''p2'', mr_p1 = ''p1'', mr_p2 = ''p4'', mr_theta = ''theta0'', mr_len = ''len1''\<rparr>"

subsection \<open>Plane geometry\<close>

text \<open>A point with real coordinates.\<close>

abbreviation pt :: "real \<Rightarrow> real \<Rightarrow> Point" where
  "pt a b \<equiv> \<lparr>pt_x = Num a, pt_y = Num b\<rparr>"

text \<open>The distance of two points, and the angle of the vector from \<open>a\<close> to \<open>b\<close> as the
  segments compute it (\<open>alpha\<close> of the source), in the arithmetic of the program.\<close>

definition pt_dist :: "Point \<Rightarrow> Point \<Rightarrow> number" where
  "pt_dist a b =
     Math_sqrt (js_add (js_sq (js_sub (pt_x a) (pt_x b))) (js_sq (js_sub (pt_y a) (pt_y b))))"

definition direction_angle :: "Point \<Rightarrow> Point \<Rightarrow> number" where
  "direction_angle a b = Math_atan2 (js_sub (pt_y b) (pt_y a)) (js_sub (pt_x b) (pt_x a))"


text \<open>The length of the base \<open>p0 p1\<close> and the argument of the arc cosine, as the
  passive segment computes them (\<open>len2\<close> and the quotient of the source) on the reals.\<close>

definition base_len :: "real \<Rightarrow> real \<Rightarrow> real \<Rightarrow> real \<Rightarrow> real" where
  "base_len x0 y0 x1 y1 = sqrt ((y1 - y0)\<^sup>2 + (x1 - x0)\<^sup>2)"

definition law_of_cosines :: "real \<Rightarrow> real \<Rightarrow> real \<Rightarrow> real" where
  "law_of_cosines len0 len1 len2 = (len1\<^sup>2 - len0\<^sup>2 - len2\<^sup>2) / (- 2 * len0 * len2)"

text \<open>The mirror image of \<open>q\<close> across the line through \<open>a\<close> and \<open>b\<close>: twice the foot of
  the perpendicular from \<open>q\<close>, minus \<open>q\<close>.\<close>

definition reflect_across :: "Point \<Rightarrow> Point \<Rightarrow> Point \<Rightarrow> Point" where
  "reflect_across a b q =
     (let dx = js_sub (pt_x b) (pt_x a);
          dy = js_sub (pt_y b) (pt_y a);
          t = js_div (js_add (js_mul (js_sub (pt_x q) (pt_x a)) dx)
                             (js_mul (js_sub (pt_y q) (pt_y a)) dy))
                     (js_add (js_sq dx) (js_sq dy))
      in \<lparr>pt_x = js_sub (js_mul (Num 2) (js_add (pt_x a) (js_mul t dx))) (pt_x q),
          pt_y = js_sub (js_mul (Num 2) (js_add (pt_y a) (js_mul t dy))) (pt_y q)\<rparr>)"

text \<open>A motor input with a negative length, and a passive input with \<open>len0 = 0\<close>.\<close>

definition motorBackwards :: MotorSegmentIn where
  "motorBackwards = \<lparr>m_p0 = pt 0 0, m_p1 = pt 1 0, m_theta = Num 0, m_len = Num (- 1)\<rparr>"





section \<open>Rounded arithmetic\<close>

text \<open>
  The source computes on binary64 numbers: each of \<open>+\<close>, \<open>-\<close>, \<open>*\<close>, \<open>/\<close> and \<open>**\<close> rounds
  its exact result, and the functions of \<open>Math\<close> return approximations. An arithmetic
  gives the rounding and the five functions; the operations of the program over an
  arithmetic keep the undefined results as above. Overflow is not modelled.
\<close>

record arith =
  rnd :: "real \<Rightarrow> real"
  fl_sqrt :: "real \<Rightarrow> real"
  fl_acos :: "real \<Rightarrow> real"
  fl_cos :: "real \<Rightarrow> real"
  fl_sin :: "real \<Rightarrow> real"
  fl_atan2 :: "real \<Rightarrow> real \<Rightarrow> real"












text \<open>The exact arithmetic: no rounding, and the functions of the reals.\<close>

definition exact_arith :: arith where
  "exact_arith =
     \<lparr>rnd = (\<lambda>x. x), fl_sqrt = sqrt, fl_acos = arccos, fl_cos = cos, fl_sin = sin,
      fl_atan2 = atan2\<rparr>"







text \<open>An arithmetic is accurate when every rounding and the square root have a relative
  error of at most \<open>2^-53\<close>, the unit roundoff of binary64; the other functions only have
  to return numbers.\<close>

definition accurate :: "arith \<Rightarrow> bool" where
  "accurate A =
     ((\<forall>x. \<bar>rnd A x - x\<bar> \<le> \<bar>x\<bar> / 2 ^ 53)
      \<and> (\<forall>x. 0 \<le> x \<longrightarrow> \<bar>fl_sqrt A x - sqrt x\<bar> \<le> sqrt x / 2 ^ 53))"

text \<open>A factor within \<open>k\<close> unit roundoffs of 1.\<close>

definition nr :: "real \<Rightarrow> real \<Rightarrow> bool" where
  "nr k f = (\<bar>f - 1\<bar> \<le> k / 2 ^ 53)"

section \<open>The empty segment list\<close>

text \<open>C10: with an empty segment list the first sweep makes no progress, the count of
  progressing sweeps is 0, which is the length of the list, and \<open>forwardConfig\<close> returns
  with the store as it was.\<close>

theorem forwardConfig_empty: "forwardConfig config [] = Some (Inr config)"
  by (simp add: forwardConfig_def sweeps.simps)

section \<open>The store only grows\<close>

lemma resolved_iff: "resolved config s = (points config (output_ref s) \<noteq> None)"
  by (cases s) (simp_all add: resolved_def output_ref_def MotorSegment_def PassiveSegment_def
      MotorSegment_hasSetOutput_def PassiveSegment_hasSetOutput_def)

lemma forwardSegment_hasSetOutput:
  "hasSetOutput SegmentKind config refs \<Longrightarrow>
     forwardSegment config SegmentKind refs = Inr (False, config)"
  by (simp add: forwardSegment_def)

lemma forwardSegmentRefs_resolved:
  "resolved config s \<Longrightarrow> forwardSegmentRefs config s = Inr (False, config)"
  by (cases s) (simp_all add: resolved_def forwardSegmentRefs_def forwardSegment_hasSetOutput)

text \<open>A step either leaves the store as it is or binds the segment's output reference,
  which was unbound.\<close>

lemma forwardSegmentRefs_cases:
  assumes "forwardSegmentRefs c s = Inr (b, c')"
  shows "(\<not> b \<and> c' = c) \<or>
         (b \<and> \<not> resolved c s \<and> (\<exists>v. c' = c\<lparr>points := (points c)(output_ref s \<mapsto> v)\<rparr>))"
proof (cases s)
  case (M refs)
  with assms show ?thesis
    by (auto simp: forwardSegmentRefs_def forwardSegment_def resolved_def output_ref_def
        MotorSegment_def MotorSegment_setOutput_def split: if_splits sum.splits option.splits)
next
  case (P refs)
  with assms show ?thesis
    by (auto simp: forwardSegmentRefs_def forwardSegment_def resolved_def output_ref_def
        PassiveSegment_def PassiveSegment_setOutput_def split: if_splits sum.splits option.splits)
qed

lemma forwardSegmentRefs_mono:
  assumes "forwardSegmentRefs c s = Inr (b, c')"
  shows "points c \<subseteq>\<^sub>m points c' \<and> lengths c' = lengths c \<and> angles c' = angles c"
  using forwardSegmentRefs_cases [OF assms]
  by (auto simp: resolved_iff map_le_def)

lemma forwardSegmentRefs_progress:
  assumes "forwardSegmentRefs c s = Inr (True, c')"
  shows "\<not> resolved c s \<and> resolved c' s"
  using forwardSegmentRefs_cases [OF assms]
  by (auto simp: resolved_iff)

lemma resolved_mono: "points c \<subseteq>\<^sub>m points c' \<Longrightarrow> resolved c s \<Longrightarrow> resolved c' s"
  by (auto simp: resolved_iff map_le_def dom_def)

lemma map_le_Some: "m \<subseteq>\<^sub>m m' \<Longrightarrow> m r = Some v \<Longrightarrow> m' r = Some v"
  by (auto simp: map_le_def dom_def)

lemma sweep_mono:
  "sweep c segs b = Inr (b', c') \<Longrightarrow>
     points c \<subseteq>\<^sub>m points c' \<and> lengths c' = lengths c \<and> angles c' = angles c"
proof (induction segs arbitrary: c b)
  case Nil
  then show ?case by simp
next
  case (Cons s segs)
  from Cons.prems obtain b1 c1 where
    step: "forwardSegmentRefs c s = Inr (b1, c1)" and rest: "sweep c1 segs (b1 \<or> b) = Inr (b', c')"
    by (auto split: sum.splits)
  from forwardSegmentRefs_mono [OF step] Cons.IH [OF rest] show ?case
    by (auto intro: map_le_trans)
qed

text \<open>A sweep that reports progress has resolved a segment that was not.\<close>

lemma sweep_progress:
  "sweep c segs b = Inr (b', c') \<Longrightarrow> b' \<Longrightarrow> \<not> b \<Longrightarrow>
     \<exists>s \<in> set segs. \<not> resolved c s \<and> resolved c' s"
proof (induction segs arbitrary: c b)
  case Nil
  then show ?case by simp
next
  case (Cons s segs)
  from Cons.prems obtain b1 c1 where
    step: "forwardSegmentRefs c s = Inr (b1, c1)" and rest: "sweep c1 segs (b1 \<or> b) = Inr (b', c')"
    by (auto split: sum.splits)
  have m2: "points c1 \<subseteq>\<^sub>m points c'" using sweep_mono [OF rest] by simp
  show ?case
  proof (cases b1)
    case True
    with step have "\<not> resolved c s \<and> resolved c1 s"
      using forwardSegmentRefs_progress [of c s c1] by simp
    with m2 have "\<not> resolved c s \<and> resolved c' s" by (blast intro: resolved_mono)
    then show ?thesis by auto
  next
    case False
    with rest Cons.prems have "\<exists>t \<in> set segs. \<not> resolved c1 t \<and> resolved c' t"
      using Cons.IH [of c1 "b1 \<or> b"] by simp
    then obtain t where t: "t \<in> set segs" "\<not> resolved c1 t" "resolved c' t" by blast
    from False have "c1 = c" using forwardSegmentRefs_cases [OF step] by simp
    with t show ?thesis by auto
  qed
qed

lemma sweep_decreases:
  assumes "sweep c segs False = Inr (True, c')"
  shows "unresolved_count c' segs < unresolved_count c segs"
proof -
  obtain s where s: "s \<in> set segs" "\<not> resolved c s" "resolved c' s"
    using sweep_progress [OF assms] by auto
  have m: "points c \<subseteq>\<^sub>m points c'" using sweep_mono [OF assms] by simp
  have eq: "filter (\<lambda>s. \<not> resolved c' s) segs
         = filter (\<lambda>s. \<not> resolved c' s) (filter (\<lambda>s. \<not> resolved c s) segs)"
    using m by (auto intro!: filter_cong dest: resolved_mono)
  have "s \<in> set (filter (\<lambda>s. \<not> resolved c s) segs)" using s by simp
  then have "length (filter (\<lambda>s. \<not> resolved c' s) (filter (\<lambda>s. \<not> resolved c s) segs))
           < length (filter (\<lambda>s. \<not> resolved c s) segs)"
    using s(3) by (intro length_filter_less [of s]) auto
  with eq show ?thesis by (simp add: unresolved_count_def)
qed

lemma sweep_resolved_psubset:
  assumes "sweep c segs False = Inr (True, c')"
  shows "{s \<in> set segs. resolved c s} \<subset> {s \<in> set segs. resolved c' s}"
proof -
  obtain s where s: "s \<in> set segs" "\<not> resolved c s" "resolved c' s"
    using sweep_progress [OF assms] by auto
  have m: "points c \<subseteq>\<^sub>m points c'" using sweep_mono [OF assms] by simp
  have "{s \<in> set segs. resolved c s} \<subseteq> {s \<in> set segs. resolved c' s}"
    using m by (auto dest: resolved_mono)
  moreover have "s \<in> {s \<in> set segs. resolved c' s}" "s \<notin> {s \<in> set segs. resolved c s}"
    using s by auto
  ultimately show ?thesis by blast
qed

lemma unresolved_count_le: "unresolved_count c segs \<le> length segs"
  by (simp add: unresolved_count_def)

text \<open>More sweeps than unresolved segments are enough for the loop to stop.\<close>

lemma sweepsN_enough:
  "unresolved_count c segs < k \<Longrightarrow>
     sweepsN k c segs n \<noteq> None \<and> sweeps c segs n = sweepsN k c segs n"
proof (induction k arbitrary: c n)
  case 0
  then show ?case by simp
next
  case (Suc k)
  show ?case
  proof (cases "sweep c segs False")
    case (Inl e)
    then show ?thesis by (simp add: sweeps.simps [of c])
  next
    case (Inr r)
    obtain b c' where r: "r = (b, c')" by (cases r)
    show ?thesis
    proof (cases b)
      case True
      with Inr r have "unresolved_count c' segs < unresolved_count c segs"
        using sweep_decreases by simp
      with Suc.prems have "unresolved_count c' segs < k" by simp
      from Suc.IH [OF this, of "n + 1"] Inr r True show ?thesis
        by (simp add: sweeps.simps [of c])
    next
      case False
      with Inr r show ?thesis by (simp add: sweeps.simps [of c])
    qed
  qed
qed

lemma sweeps_eq_sweepsN:
  "sweepsN (Suc (length segs)) c segs n \<noteq> None
   \<and> sweeps c segs n = sweepsN (Suc (length segs)) c segs n"
  by (rule sweepsN_enough) (simp add: unresolved_count_le less_Suc_eq_le)

lemma sweepsN_mono:
  "sweepsN k c segs n = Some (Inr (m, c')) \<Longrightarrow> points c \<subseteq>\<^sub>m points c'"
proof (induction k arbitrary: c n)
  case 0
  then show ?case by simp
next
  case (Suc k)
  from Suc.prems obtain b c1 where sw: "sweep c segs False = Inr (b, c1)"
    by (auto split: sum.splits)
  have m1: "points c \<subseteq>\<^sub>m points c1" using sweep_mono [OF sw] by simp
  show ?case
  proof (cases b)
    case True
    with Suc.prems sw have "sweepsN k c1 segs (n + 1) = Some (Inr (m, c'))" by simp
    from Suc.IH [OF this] m1 show ?thesis by (rule map_le_trans [rotated])
  next
    case False
    with Suc.prems sw have "c' = c1" by simp
    with m1 show ?thesis by simp
  qed
qed

lemma sweeps_mono:
  assumes "sweeps c segs n = Some (Inr (m, c'))"
  shows "points c \<subseteq>\<^sub>m points c'"
proof -
  have "sweepsN (Suc (length segs)) c segs n = Some (Inr (m, c'))"
    using assms sweeps_eq_sweepsN [of segs c n] by simp
  then show ?thesis by (rule sweepsN_mono)
qed

section \<open>The square linkage, step by step\<close>

lemma arccos_inv_sqrt2: "arccos (1 / sqrt 2) = pi / 4"
proof -
  have "cos (pi / 4) = 1 / sqrt 2"
    by (simp add: cos_45 real_div_sqrt)
  then have "arccos (1 / sqrt 2) = arccos (cos (pi / 4))" by simp
  also have "\<dots> = pi / 4" by (rule arccos_cos) auto
  finally show ?thesis .
qed

lemma MotorSegment_forward_square:
  "MotorSegment_forward
     \<lparr>m_p0 = \<lparr>pt_x = Num 0, pt_y = Num 0\<rparr>, m_p1 = \<lparr>pt_x = Num 1, pt_y = Num 0\<rparr>,
      m_theta = Num (pi / 2), m_len = Num 1\<rparr>
   = \<lparr>m_p2 = \<lparr>pt_x = Num 0, pt_y = Num 1\<rparr>\<rparr>"
  by (simp add: MotorSegment_forward_def atan2_def)

lemma PassiveSegment_forward_square:
  "PassiveSegment_forward
     \<lparr>p_p0 = \<lparr>pt_x = Num 0, pt_y = Num 1\<rparr>, p_p1 = \<lparr>pt_x = Num 1, pt_y = Num 0\<rparr>,
      p_len0 = Num 1, p_len1 = Num 1\<rparr>
   = \<lparr>p_p2 = \<lparr>pt_x = Num 1, pt_y = Num 1\<rparr>\<rparr>"
proof -
  have a: "atan2 (- 1) 1 = - (pi / 4)"
    by (simp add: atan2_def arctan_minus arctan_one)
  have b: "- 1 \<le> 1 / sqrt 2"
    by (rule order_trans [of _ 0]) simp_all
  show ?thesis
    by (simp add: PassiveSegment_forward_def a b arccos_inv_sqrt2)
qed

lemma step_motor0: "forwardSegmentRefs squareConfig (M motor0) = Inr (True, squareWithP2)"
  by (simp add: forwardSegmentRefs_def forwardSegment_def MotorSegment_def
      MotorSegment_hasSetOutput_def MotorSegment_getInput_def MotorSegment_setOutput_def getX_def
      squareConfig_def squareLinkage_def squareAngles_def motor0_def squareWithP2_def
      MotorSegment_forward_square)

lemma step_passive1: "forwardSegmentRefs squareWithP2 (P passive1) = Inr (True, squareResolved)"
  by (simp add: forwardSegmentRefs_def forwardSegment_def PassiveSegment_def
      PassiveSegment_hasSetOutput_def PassiveSegment_getInput_def PassiveSegment_setOutput_def
      getX_def squareConfig_def squareLinkage_def squareAngles_def passive1_def squareWithP2_def
      squareResolved_def PassiveSegment_forward_square)

lemma step_passive1_early: "forwardSegmentRefs squareConfig (P passive1) = Inr (False, squareConfig)"
  by (simp add: forwardSegmentRefs_def forwardSegment_def PassiveSegment_def
      PassiveSegment_hasSetOutput_def PassiveSegment_getInput_def getX_def
      squareConfig_def squareLinkage_def passive1_def)

lemma step_motor0_again: "forwardSegmentRefs squareWithP2 (M motor0) = Inr (False, squareWithP2)"
  by (simp add: forwardSegmentRefs_def forwardSegment_def MotorSegment_def
      MotorSegment_hasSetOutput_def motor0_def squareWithP2_def)

lemma step_motor0_done: "forwardSegmentRefs squareResolved (M motor0) = Inr (False, squareResolved)"
  by (simp add: forwardSegmentRefs_def forwardSegment_def MotorSegment_def
      MotorSegment_hasSetOutput_def motor0_def squareWithP2_def squareResolved_def)

lemma step_passive1_done:
  "forwardSegmentRefs squareResolved (P passive1) = Inr (False, squareResolved)"
  by (simp add: forwardSegmentRefs_def forwardSegment_def PassiveSegment_def
      PassiveSegment_hasSetOutput_def passive1_def squareResolved_def)

lemmas square_steps = step_motor0 step_passive1 step_passive1_early step_motor0_again
  step_motor0_done step_passive1_done

text \<open>In the listed order one sweep resolves both segments; the second sweep makes no
  progress, so \<open>computedSegments\<close> is 1 at the exit.\<close>

lemma sweeps_square:
  "sweeps squareConfig squareSegments 0 = Some (Inr (1, squareResolved))"
  by (simp add: squareSegments_def sweeps.simps [of squareConfig]
      sweeps.simps [of squareResolved] square_steps)

text \<open>In the other order the first sweep resolves the motor only and the second the
  passive segment, so \<open>computedSegments\<close> is 2 at the exit.\<close>

lemma sweeps_square_rev:
  "sweeps squareConfig (rev squareSegments) 0 = Some (Inr (2, squareResolved))"
  by (simp add: squareSegments_def sweeps.simps [of squareConfig] sweeps.simps [of squareWithP2]
      sweeps.simps [of squareResolved] square_steps)

lemma forwardLinkage_square_unfold:
  "forwardLinkage (squareLinkage\<lparr>segments := segs\<rparr>) squareAngles = forwardConfig squareConfig segs"
  by (simp add: forwardLinkage_def squareConfig_def squareLinkage_def)

lemma squareLinkage_segments: "squareLinkage\<lparr>segments := squareSegments\<rparr> = squareLinkage"
  by (simp add: squareLinkage_def)

lemma unresolved_count_squareResolved: "unresolved_count squareResolved squareSegments = 0"
  by (simp add: unresolved_count_def resolved_iff output_ref_def squareSegments_def
      squareResolved_def motor0_def passive1_def squareWithP2_def)

section \<open>The driver: termination\<close>

text \<open>C8: \<open>forwardConfig\<close> returns for every store and every segment list, by a throw
  or normally. The loop run for at most \<open>length segs + 1\<close> sweeps is the loop itself and
  has stopped; and a sweep that reports progress strictly enlarges the set of segments
  whose output is in the store.\<close>

theorem forwardConfig_terminates:
  "(\<exists>r. forwardConfig config segs = Some r)
   \<and> sweepsN (Suc (length segs)) config segs n \<noteq> None
   \<and> sweeps config segs n = sweepsN (Suc (length segs)) config segs n
   \<and> (sweep config segs False = Inr (True, config') \<longrightarrow>
        {s \<in> set segs. resolved config s} \<subset> {s \<in> set segs. resolved config' s})"
proof -
  have "sweeps config segs 0 \<noteq> None"
    using sweeps_eq_sweepsN [of segs config 0] by simp
  then have "\<exists>r. forwardConfig config segs = Some r"
    by (auto simp: forwardConfig_def split: option.splits sum.splits)
  then show ?thesis
    using sweeps_eq_sweepsN [of segs config n] sweep_resolved_psubset [of config segs config']
    by blast
qed

theorem forwardConfig_terminates_witness:
  "sweep squareConfig squareSegments False = Inr (True, squareResolved)
   \<and> {s \<in> set squareSegments. resolved squareConfig s}
       \<subset> {s \<in> set squareSegments. resolved squareResolved s}
   \<and> (\<exists>r. forwardConfig squareConfig squareSegments = Some r)
   \<and> sweeps squareConfig squareSegments 0 = sweepsN 3 squareConfig squareSegments 0"
proof -
  have sw: "sweep squareConfig squareSegments False = Inr (True, squareResolved)"
    by (simp add: squareSegments_def square_steps)
  have len: "Suc (length squareSegments) = 3"
    by (simp add: squareSegments_def)
  show ?thesis
    using forwardConfig_terminates [of squareConfig squareSegments 0 squareResolved] sw len
    by simp
qed

section \<open>The driver: write-once store\<close>

text \<open>C9: \<open>forwardSegment\<close> returns false and leaves the store as it is when the
  output reference of the segment is bound; and a point reference that is bound keeps
  its value through a step of either kind, through a sweep and through the whole loop.\<close>

theorem store_write_once:
  "(hasSetOutput SegmentKind config refs \<longrightarrow>
      forwardSegment config SegmentKind refs = Inr (False, config))
   \<and> (resolved config segment \<longrightarrow> forwardSegmentRefs config segment = Inr (False, config))
   \<and> (points config r = Some v \<and> forwardSegmentRefs config segment = Inr (b_a, config_a) \<longrightarrow>
        points config_a r = Some v)
   \<and> (points config r = Some v \<and> sweep config segs b = Inr (b', config_b) \<longrightarrow>
        points config_b r = Some v)
   \<and> (points config r = Some v \<and> sweeps config segs n = Some (Inr (m, config_c)) \<longrightarrow>
        points config_c r = Some v)"
proof -
  have "points config r = Some v \<Longrightarrow> forwardSegmentRefs config segment = Inr (b_a, config_a)
          \<Longrightarrow> points config_a r = Some v"
    using forwardSegmentRefs_mono [of config segment b_a config_a] by (blast intro: map_le_Some)
  moreover have "points config r = Some v \<Longrightarrow> sweep config segs b = Inr (b', config_b)
          \<Longrightarrow> points config_b r = Some v"
    using sweep_mono [of config segs b b' config_b] by (blast intro: map_le_Some)
  moreover have "points config r = Some v \<Longrightarrow> sweeps config segs n = Some (Inr (m, config_c))
          \<Longrightarrow> points config_c r = Some v"
    using sweeps_mono [of config segs n m config_c] by (blast intro: map_le_Some)
  ultimately show ?thesis
    using forwardSegment_hasSetOutput [of SegmentKind config refs]
      forwardSegmentRefs_resolved [of config segment]
    by blast
qed

theorem store_write_once_witness:
  "hasSetOutput MotorSegment squareWithP2 motor0
   \<and> forwardSegment squareWithP2 MotorSegment motor0 = Inr (False, squareWithP2)
   \<and> resolved squareWithP2 (M motor0)
   \<and> forwardSegmentRefs squareWithP2 (M motor0) = Inr (False, squareWithP2)
   \<and> points squareWithP2 ''p2'' = Some \<lparr>pt_x = Num 0, pt_y = Num 1\<rparr>
   \<and> sweep squareWithP2 squareSegments False = Inr (True, squareResolved)
   \<and> sweeps squareWithP2 squareSegments 0 = Some (Inr (1, squareResolved))
   \<and> points squareResolved ''p2'' = Some \<lparr>pt_x = Num 0, pt_y = Num 1\<rparr>"
proof -
  have h: "hasSetOutput MotorSegment squareWithP2 motor0"
    by (simp add: MotorSegment_def MotorSegment_hasSetOutput_def motor0_def squareWithP2_def)
  have r: "resolved squareWithP2 (M motor0)"
    using h by (simp add: resolved_def)
  have p: "points squareWithP2 ''p2'' = Some \<lparr>pt_x = Num 0, pt_y = Num 1\<rparr>"
    by (simp add: squareWithP2_def)
  have sw: "sweep squareWithP2 squareSegments False = Inr (True, squareResolved)"
    by (simp add: squareSegments_def square_steps)
  have sws: "sweeps squareWithP2 squareSegments 0 = Some (Inr (1, squareResolved))"
    by (simp add: squareSegments_def sweeps.simps [of squareWithP2]
        sweeps.simps [of squareResolved] square_steps)
  show ?thesis
    using store_write_once [where SegmentKind = MotorSegment and config = squareWithP2
        and refs = motor0 and segment = "M motor0" and r = "''p2''"
        and v = "\<lparr>pt_x = Num 0, pt_y = Num 1\<rparr>" and b_a = False
        and config_a = squareWithP2 and segs = squareSegments and b = False and b' = True
        and config_b = squareResolved and n = 0 and m = 1 and config_c = squareResolved]
      h r p sw sws
    by simp
qed

section \<open>The driver: the count of progressing sweeps\<close>

text \<open>A normal return does mean that every segment is resolved: each progressing sweep
  resolves a segment, so \<open>length segs\<close> progressing sweeps leave none unresolved.\<close>

lemma unresolved_count_mono:
  assumes "points c \<subseteq>\<^sub>m points c'"
  shows "unresolved_count c' segs \<le> unresolved_count c segs"
proof -
  have "filter (\<lambda>s. \<not> resolved c' s) segs
      = filter (\<lambda>s. \<not> resolved c' s) (filter (\<lambda>s. \<not> resolved c s) segs)"
    using assms by (auto intro!: filter_cong dest: resolved_mono)
  then have "length (filter (\<lambda>s. \<not> resolved c' s) segs)
      \<le> length (filter (\<lambda>s. \<not> resolved c s) segs)"
    using length_filter_le [of "\<lambda>s. \<not> resolved c' s" "filter (\<lambda>s. \<not> resolved c s) segs"]
    by simp
  then show ?thesis by (simp add: unresolved_count_def)
qed

lemma sweepsN_count:
  "sweepsN k c segs n = Some (Inr (m, c')) \<Longrightarrow>
     n \<le> m \<and> unresolved_count c' segs + (m - n) \<le> unresolved_count c segs"
proof (induction k arbitrary: c n)
  case 0
  then show ?case by simp
next
  case (Suc k)
  from Suc.prems obtain b c1 where sw: "sweep c segs False = Inr (b, c1)"
    by (auto split: sum.splits)
  show ?case
  proof (cases b)
    case True
    with Suc.prems sw have "sweepsN k c1 segs (n + 1) = Some (Inr (m, c'))" by simp
    from Suc.IH [OF this]
    have "n + 1 \<le> m \<and> unresolved_count c' segs + (m - (n + 1)) \<le> unresolved_count c1 segs" .
    moreover have "unresolved_count c1 segs < unresolved_count c segs"
      using sw True sweep_decreases by simp
    ultimately show ?thesis by arith
  next
    case False
    with Suc.prems sw have "m = n" "c' = c1" by simp_all
    moreover have "unresolved_count c1 segs \<le> unresolved_count c segs"
      using sweep_mono [OF sw] by (simp add: unresolved_count_mono)
    ultimately show ?thesis by simp
  qed
qed

lemma forwardConfig_success_resolved:
  assumes "forwardConfig c segs = Some (Inr c')"
  shows "unresolved_count c' segs = 0"
proof -
  from assms have "sweeps c segs 0 = Some (Inr (length segs, c'))"
    by (auto simp: forwardConfig_def split: option.splits sum.splits if_splits)
  then have "sweepsN (Suc (length segs)) c segs 0 = Some (Inr (length segs, c'))"
    using sweeps_eq_sweepsN [of segs c 0] by simp
  from sweepsN_count [OF this] unresolved_count_le [of c segs]
  show ?thesis by simp
qed

text \<open>C1: on the square linkage the loop stops with every segment resolved (no segment
  of the list is left without its output in the store), and \<open>forwardConfig\<close> throws all
  the same: \<open>computedSegments\<close> counts the sweeps that made progress, here 1, and is
  compared with the number of segments, here 2.\<close>

theorem forwardConfig_square_resolved_but_throws:
  "sweeps squareConfig squareSegments 0 = Some (Inr (1, squareResolved))
   \<and> unresolved_count squareResolved squareSegments = 0
   \<and> length squareSegments = 2
   \<and> forwardConfig squareConfig squareSegments = Some (Inl FailedToComputeAllSegments)"
  by (simp add: forwardConfig_def sweeps_square unresolved_count_squareResolved)
    (simp add: squareSegments_def)

text \<open>C2: \<open>forwardLinkage\<close> on the square linkage with \<open>theta0 = pi/2\<close> does not return
  a store: it throws \<open>failed to compute all segments\<close>.\<close>

theorem forwardLinkage_square_throws:
  "forwardLinkage squareLinkage squareAngles = Some (Inl FailedToComputeAllSegments)"
proof -
  have "forwardLinkage squareLinkage squareAngles = forwardConfig squareConfig squareSegments"
    using forwardLinkage_square_unfold [of squareSegments] by (simp add: squareLinkage_segments)
  also have "\<dots> = Some (Inl FailedToComputeAllSegments)"
    by (simp add: forwardConfig_def sweeps_square) (simp add: squareSegments_def)
  finally show ?thesis .
qed

text \<open>C3: the two orders of the segments of the square linkage do not have the same
  outcome. With the passive segment first \<open>forwardLinkage\<close> returns the store with
  \<open>p2 = (0,1)\<close> and \<open>p3 = (1,1)\<close>; in the listed order it throws.\<close>

theorem forwardLinkage_square_order_matters:
  "forwardLinkage (squareLinkage\<lparr>segments := [P passive1, M motor0]\<rparr>) squareAngles
     = Some (Inr squareResolved)
   \<and> points squareResolved ''p2'' = Some \<lparr>pt_x = Num 0, pt_y = Num 1\<rparr>
   \<and> points squareResolved ''p3'' = Some \<lparr>pt_x = Num 1, pt_y = Num 1\<rparr>
   \<and> forwardLinkage (squareLinkage\<lparr>segments := [M motor0, P passive1]\<rparr>) squareAngles
     = Some (Inl FailedToComputeAllSegments)"
proof -
  have r: "rev squareSegments = [P passive1, M motor0]" and s: "squareSegments = [M motor0, P passive1]"
    by (simp_all add: squareSegments_def)
  have "forwardConfig squareConfig [P passive1, M motor0] = Some (Inr squareResolved)"
    using sweeps_square_rev by (simp add: forwardConfig_def r)
  moreover have "forwardConfig squareConfig [M motor0, P passive1]
      = Some (Inl FailedToComputeAllSegments)"
    using sweeps_square by (simp add: forwardConfig_def s)
  moreover have "points squareResolved ''p2'' = Some \<lparr>pt_x = Num 0, pt_y = Num 1\<rparr>"
    "points squareResolved ''p3'' = Some \<lparr>pt_x = Num 1, pt_y = Num 1\<rparr>"
    by (simp_all add: squareResolved_def squareWithP2_def)
  ultimately show ?thesis
    by (simp add: forwardLinkage_square_unfold)
qed

section \<open>Gathering the input\<close>

lemma PassiveSegment_getInput_missing_point:
  "points config (pr_p0 refs) = None \<or> points config (pr_p1 refs) = None \<Longrightarrow>
     getInput PassiveSegment config refs = Inr None"
  by (auto simp: PassiveSegment_def PassiveSegment_getInput_def split: option.splits)

lemma MotorSegment_getInput_never_null:
  "getInput MotorSegment config refs \<noteq> Inr None"
  by (simp add: MotorSegment_def MotorSegment_getInput_def split: sum.splits)

text \<open>C7: in the seeded store of the square linkage the point \<open>p2\<close> is not yet bound.
  The passive segment that reads it gets \<open>null\<close>; the motor that reads it throws
  \<open>no value for key p2\<close>, and so does \<open>forwardLinkage\<close> when that motor is listed
  before the segment that computes \<open>p2\<close>.\<close>

theorem MotorSegment_getInput_missing_point_throws:
  "points squareConfig ''p2'' = None
   \<and> getInput PassiveSegment squareConfig passive1 = Inr None
   \<and> getInput MotorSegment squareConfig motorOnP2 = Inl (NoValueForKey ''p2'')
   \<and> forwardLinkage (squareLinkage\<lparr>segments := [M motorOnP2, M motor0]\<rparr>) squareAngles
       = Some (Inl (NoValueForKey ''p2''))"
proof -
  have g: "getInput MotorSegment squareConfig motorOnP2 = Inl (NoValueForKey ''p2'')"
    by (simp add: MotorSegment_def MotorSegment_getInput_def getX_def squareConfig_def
        squareLinkage_def motorOnP2_def)
  have "forwardSegmentRefs squareConfig (M motorOnP2) = Inl (NoValueForKey ''p2'')"
    using g by (simp add: forwardSegmentRefs_def forwardSegment_def MotorSegment_def
        MotorSegment_hasSetOutput_def squareConfig_def squareLinkage_def motorOnP2_def)
  then have "forwardConfig squareConfig [M motorOnP2, M motor0] = Some (Inl (NoValueForKey ''p2''))"
    by (simp add: forwardConfig_def sweeps.simps [of squareConfig])
  moreover have "getInput PassiveSegment squareConfig passive1 = Inr None"
    by (rule PassiveSegment_getInput_missing_point)
      (simp add: squareConfig_def squareLinkage_def passive1_def)
  moreover have "points squareConfig ''p2'' = None"
    by (simp add: squareConfig_def squareLinkage_def)
  ultimately show ?thesis
    using g by (simp add: forwardLinkage_square_unfold)
qed

section \<open>The angle of a vector\<close>


lemma sqrt_one_plus_sq_div:
  assumes "(x::real) \<noteq> 0"
  shows "sqrt (1 + (y / x)\<^sup>2) = sqrt (x\<^sup>2 + y\<^sup>2) / \<bar>x\<bar>"
proof -
  have "1 + (y / x)\<^sup>2 = (x\<^sup>2 + y\<^sup>2) / x\<^sup>2"
    using assms by (simp add: power_divide add_divide_distrib)
  then show ?thesis by (simp add: real_sqrt_divide)
qed

lemma cos_atan2:
  assumes "x \<noteq> 0 \<or> y \<noteq> 0"
  shows "cos (atan2 y x) = x / sqrt (x\<^sup>2 + y\<^sup>2)"
proof -
  consider "0 < x" | "x < 0" | "x = 0" "0 < y" | "x = 0" "y < 0"
    using assms by fastforce
  then show ?thesis
  proof cases
    case 1
    then show ?thesis
      by (simp add: atan2_def cos_arctan sqrt_one_plus_sq_div)
  next
    case 2
    then show ?thesis
      by (simp add: atan2_def cos_arctan sqrt_one_plus_sq_div)
  next
    case 3
    then show ?thesis by (simp add: atan2_def)
  next
    case 4
    then show ?thesis by (simp add: atan2_def)
  qed
qed

lemma sin_atan2:
  assumes "x \<noteq> 0 \<or> y \<noteq> 0"
  shows "sin (atan2 y x) = y / sqrt (x\<^sup>2 + y\<^sup>2)"
proof -
  consider "0 < x" | "x < 0" | "x = 0" "0 < y" | "x = 0" "y < 0"
    using assms by fastforce
  then show ?thesis
  proof cases
    case 1
    then show ?thesis
      by (simp add: atan2_def sin_arctan sqrt_one_plus_sq_div)
  next
    case 2
    then show ?thesis
      by (simp add: atan2_def sin_arctan sqrt_one_plus_sq_div)
  next
    case 3
    then show ?thesis by (simp add: atan2_def)
  next
    case 4
    then show ?thesis by (simp add: atan2_def)
  qed
qed



lemma sq_polar: "(l * cos a)\<^sup>2 + (l * sin a)\<^sup>2 = (l::real)\<^sup>2"
proof -
  have "(l * cos a)\<^sup>2 + (l * sin a)\<^sup>2 = l\<^sup>2 * ((cos a)\<^sup>2 + (sin a)\<^sup>2)"
    by (simp only: power_mult_distrib distrib_left)
  also have "\<dots> = l\<^sup>2" by simp
  finally show ?thesis .
qed

text \<open>The angle of a positive multiple of a unit vector is the angle of the unit vector,
  up to full turns.\<close>

lemma atan2_of_polar:
  assumes "0 < l"
  shows "cos (atan2 (l * sin a) (l * cos a)) = cos a"
    and "sin (atan2 (l * sin a) (l * cos a)) = sin a"
proof -
  have n: "sqrt ((l * cos a)\<^sup>2 + (l * sin a)\<^sup>2) = l"
    using assms by (simp add: sq_polar)
  have nz: "l * cos a \<noteq> 0 \<or> l * sin a \<noteq> 0"
  proof (rule ccontr)
    assume "\<not> ?thesis"
    then have "cos a = 0" "sin a = 0" using assms by auto
    then have "(cos a)\<^sup>2 + (sin a)\<^sup>2 = 0" by simp
    then show False by simp
  qed
  show "cos (atan2 (l * sin a) (l * cos a)) = cos a"
    using assms by (simp add: cos_atan2 [OF nz] n)
  show "sin (atan2 (l * sin a) (l * cos a)) = sin a"
    using assms by (simp add: sin_atan2 [OF nz] n)
qed

section \<open>Distances\<close>

lemma pt_dist_Num: "pt_dist (pt a b) (pt c d) = Num (sqrt ((a - c)\<^sup>2 + (b - d)\<^sup>2))"
  by (simp add: pt_dist_def not_less)

lemma dist_polar: "sqrt ((x0 + l * cos a - x0)\<^sup>2 + (y0 + l * sin a - y0)\<^sup>2) = \<bar>l :: real\<bar>"
  by (simp add: sq_polar)

section \<open>The motor segment\<close>

lemma MotorSegment_forward_Num:
  "MotorSegment_forward \<lparr>m_p0 = pt x0 y0, m_p1 = pt x1 y1, m_theta = Num t, m_len = Num l\<rparr>
   = \<lparr>m_p2 = pt (x0 + l * cos (atan2 (y1 - y0) (x1 - x0) + t))
                 (y0 + l * sin (atan2 (y1 - y0) (x1 - x0) + t))\<rparr>"
  by (simp add: MotorSegment_forward_def)


text \<open>C5, as amended: for an input of real numbers the motor returns
  \<open>p2 = p0 + len * (cos (alpha + theta), sin (alpha + theta))\<close> with
  \<open>alpha = atan2 (p1.y - p0.y) (p1.x - p0.x)\<close>, a function of the input; the distance
  from \<open>p0\<close> to \<open>p2\<close> is \<open>|len|\<close>, that is \<open>len\<close> when \<open>len\<close> is not negative; and for a
  positive \<open>len\<close> the angle from the direction of \<open>p1 - p0\<close> to the direction of
  \<open>p2 - p0\<close> is \<open>theta\<close> up to full turns (it has the cosine and the sine of \<open>theta\<close>).\<close>

theorem MotorSegment_forward_post:
  "let p0 = pt x0 y0; p1 = pt x1 y1; alpha = atan2 (y1 - y0) (x1 - x0);
       p2 = m_p2 (MotorSegment_forward \<lparr>m_p0 = p0, m_p1 = p1, m_theta = Num t, m_len = Num l\<rparr>)
   in p2 = pt (x0 + l * cos (alpha + t)) (y0 + l * sin (alpha + t))
      \<and> pt_dist p2 p0 = Num \<bar>l\<bar>
      \<and> (0 \<le> l \<longrightarrow> pt_dist p2 p0 = Num l)
      \<and> (0 < l \<longrightarrow>
            Math_cos (js_sub (direction_angle p0 p2) (direction_angle p0 p1)) = Num (cos t)
          \<and> Math_sin (js_sub (direction_angle p0 p2) (direction_angle p0 p1)) = Num (sin t))"
proof -
  define alpha where "alpha = atan2 (y1 - y0) (x1 - x0)"
  define a where "a = alpha + t"
  have d: "pt_dist (pt (x0 + l * cos a) (y0 + l * sin a)) (pt x0 y0) = Num \<bar>l\<bar>"
    by (simp only: pt_dist_Num dist_polar)
  have ang: "direction_angle (pt x0 y0) (pt (x0 + l * cos a) (y0 + l * sin a))
      = Num (atan2 (l * sin a) (l * cos a))"
    by (simp add: direction_angle_def)
  have ref: "direction_angle (pt x0 y0) (pt x1 y1) = Num alpha"
    by (simp add: direction_angle_def alpha_def)
  have c: "cos (atan2 (l * sin a) (l * cos a) - alpha) = cos t" if "0 < l"
  proof -
    have "cos (atan2 (l * sin a) (l * cos a) - alpha) = cos a * cos alpha + sin a * sin alpha"
      by (simp only: cos_diff atan2_of_polar [OF that])
    also have "\<dots> = cos (a - alpha)" by (simp only: cos_diff)
    finally show ?thesis by (simp add: a_def)
  qed
  have s: "sin (atan2 (l * sin a) (l * cos a) - alpha) = sin t" if "0 < l"
  proof -
    have "sin (atan2 (l * sin a) (l * cos a) - alpha) = sin a * cos alpha - cos a * sin alpha"
      by (simp only: sin_diff atan2_of_polar [OF that])
    also have "\<dots> = sin (a - alpha)" by (simp only: sin_diff)
    finally show ?thesis by (simp add: a_def)
  qed
  show ?thesis
    unfolding Let_def MotorSegment_forward_Num alpha_def [symmetric] a_def [symmetric]
    using d c s by (simp add: ang ref)
qed

theorem MotorSegment_forward_post_witness:
  "(0::real) < 1
   \<and> m_p2 (MotorSegment_forward
            \<lparr>m_p0 = pt 0 0, m_p1 = pt 1 0, m_theta = Num (pi / 4), m_len = Num 1\<rparr>)
       = pt (sqrt 2 / 2) (sqrt 2 / 2)
   \<and> pt_dist (pt (sqrt 2 / 2) (sqrt 2 / 2)) (pt 0 0) = Num 1
   \<and> Math_cos (js_sub (direction_angle (pt 0 0) (pt (sqrt 2 / 2) (sqrt 2 / 2)))
                       (direction_angle (pt 0 0) (pt 1 0))) = Num (sqrt 2 / 2)
   \<and> Math_sin (js_sub (direction_angle (pt 0 0) (pt (sqrt 2 / 2) (sqrt 2 / 2)))
                       (direction_angle (pt 0 0) (pt 1 0))) = Num (sqrt 2 / 2)"
proof -
  have a: "atan2 (0 - 0) (1 - 0) = 0" by (simp add: atan2_def)
  note post = MotorSegment_forward_post [of 0 0 1 0 "pi / 4" 1, unfolded Let_def a]
  have p2: "m_p2 (MotorSegment_forward
                   \<lparr>m_p0 = pt 0 0, m_p1 = pt 1 0, m_theta = Num (pi / 4), m_len = Num 1\<rparr>)
      = pt (sqrt 2 / 2) (sqrt 2 / 2)"
    using post by (simp add: cos_45 sin_45)
  show ?thesis
    using post unfolding p2 by (simp add: cos_45 sin_45)
qed

text \<open>C5, as stated, fails for a negative length: with \<open>p0 = (0,0)\<close>, \<open>p1 = (1,0)\<close>,
  \<open>theta = 0\<close> and \<open>len = -1\<close> the motor returns \<open>p2 = (-1,0)\<close>, at distance 1 from \<open>p0\<close>
  and in the direction opposite to \<open>p1 - p0\<close>.\<close>

theorem MotorSegment_forward_negative_len:
  "m_p2 (MotorSegment_forward motorBackwards) = pt (- 1) 0
   \<and> pt_dist (m_p2 (MotorSegment_forward motorBackwards)) (m_p0 motorBackwards) = Num 1
   \<and> pt_dist (m_p2 (MotorSegment_forward motorBackwards)) (m_p0 motorBackwards)
       \<noteq> m_len motorBackwards
   \<and> Math_cos (js_sub (direction_angle (m_p0 motorBackwards)
                                       (m_p2 (MotorSegment_forward motorBackwards)))
                       (direction_angle (m_p0 motorBackwards) (m_p1 motorBackwards)))
       = Num (- 1)
   \<and> Math_cos (m_theta motorBackwards) = Num 1"
proof -
  have p: "m_p2 (MotorSegment_forward motorBackwards) = pt (- 1) 0"
    by (simp add: motorBackwards_def MotorSegment_forward_Num atan2_def)
  have a: "atan2 0 (- 1) = pi" "atan2 0 1 = 0" by (simp_all add: atan2_def)
  show ?thesis
    unfolding p by (simp add: motorBackwards_def pt_dist_Num direction_angle_def a)
qed


section \<open>The passive segment\<close>




text \<open>What the passive segment returns when the quotient is defined and in the domain
  of the arc cosine.\<close>

lemma PassiveSegment_forward_Num:
  assumes "l0 \<noteq> 0" and "base_len x0 y0 x1 y1 \<noteq> 0"
    and "- 1 \<le> law_of_cosines l0 l1 (base_len x0 y0 x1 y1)"
    and "law_of_cosines l0 l1 (base_len x0 y0 x1 y1) \<le> 1"
  shows "PassiveSegment_forward
           \<lparr>p_p0 = pt x0 y0, p_p1 = pt x1 y1, p_len0 = Num l0, p_len1 = Num l1\<rparr>
         = \<lparr>p_p2 = pt (x0 + l0 * cos (atan2 (y1 - y0) (x1 - x0)
                                       + arccos (law_of_cosines l0 l1 (base_len x0 y0 x1 y1))))
                       (y0 + l0 * sin (atan2 (y1 - y0) (x1 - x0)
                                       + arccos (law_of_cosines l0 l1 (base_len x0 y0 x1 y1))))\<rparr>"
proof -
  have s: "Math_sqrt (Num ((y1 - y0)\<^sup>2 + (x1 - x0)\<^sup>2)) = Num (base_len x0 y0 x1 y1)"
    by (simp add: base_len_def not_less)
  have q: "js_div (Num (l1\<^sup>2 - l0\<^sup>2 - (base_len x0 y0 x1 y1)\<^sup>2))
                  (Num (- 2 * l0 * base_len x0 y0 x1 y1))
           = Num (law_of_cosines l0 l1 (base_len x0 y0 x1 y1))"
    using assms(1,2) by (simp add: law_of_cosines_def)
  have a: "Math_acos (Num (law_of_cosines l0 l1 (base_len x0 y0 x1 y1)))
           = Num (arccos (law_of_cosines l0 l1 (base_len x0 y0 x1 y1)))"
    using assms(3,4) by simp
  show ?thesis
    unfolding PassiveSegment_forward_def Let_def
    by (simp only: PassiveSegmentIn.select_convs Point.select_convs js_sub.simps js_sq.simps
        js_add.simps js_mul.simps Math_atan2.simps Math_cos.simps Math_sin.simps s q a)
qed



text \<open>\<open>base_len\<close> is the distance of the two points in the arithmetic of the program.\<close>

lemma pt_dist_base_len: "pt_dist (pt x1 y1) (pt x0 y0) = Num (base_len x0 y0 x1 y1)"
  by (simp add: pt_dist_Num base_len_def add.commute)





lemma sqrt2_le_2: "sqrt 2 \<le> 2"
  by (rule real_le_lsqrt) simp_all






subsection \<open>Rounded arithmetic on a triangle with a margin\<close>







lemma nr_mono: "nr j f \<Longrightarrow> j \<le> k \<Longrightarrow> nr k f"
proof -
  assume a: "nr j f" and b: "j \<le> k"
  have "j / 2 ^ 53 \<le> k / (2 ^ 53 :: real)" using b by (simp add: divide_right_mono)
  with a show ?thesis unfolding nr_def by linarith
qed



















lemma accurate_exact: "accurate exact_arith"
  unfolding accurate_def by (simp add: exact_arith_def)




section \<open>Swapping the roles of the two points\<close>

lemma reflect_across_Num:
  assumes "(bx - ax)\<^sup>2 + (by - ay)\<^sup>2 \<noteq> 0"
  shows "reflect_across (pt ax ay) (pt bx by) (pt qx qy)
         = pt (2 * (ax + ((qx - ax) * (bx - ax) + (qy - ay) * (by - ay))
                         / ((bx - ax)\<^sup>2 + (by - ay)\<^sup>2) * (bx - ax)) - qx)
              (2 * (ay + ((qx - ax) * (bx - ax) + (qy - ay) * (by - ay))
                         / ((bx - ax)\<^sup>2 + (by - ay)\<^sup>2) * (by - ay)) - qy)"
  using assms by (simp add: reflect_across_def Let_def)










section \<open>The tests of the repository\<close>

text \<open>The two passive tests: from \<open>p0 = (0,0)\<close>, \<open>p1 = (1,0)\<close> with lengths \<open>sqrt 2\<close> and 1
  the apex is \<open>(1,1)\<close>; with the points and the lengths swapped it is \<open>(1,-1)\<close>, the
  mirror image across the x axis.\<close>

lemma PassiveSegment_forward_test:
  "PassiveSegment_forward
     \<lparr>p_p0 = pt 0 0, p_p1 = pt 1 0, p_len0 = Num (sqrt 2), p_len1 = Num 1\<rparr>
   = \<lparr>p_p2 = pt 1 1\<rparr>"
proof -
  have c: "law_of_cosines (sqrt 2) 1 (base_len 0 0 1 0) = 1 / sqrt 2"
    by (simp add: law_of_cosines_def base_len_def)
  have b: "- 1 \<le> 1 / sqrt 2" by (rule order_trans [of _ 0]) simp_all
  have a: "atan2 (0 - 0) (1 - 0) = 0" by (simp add: atan2_def)
  have "PassiveSegment_forward
     \<lparr>p_p0 = pt 0 0, p_p1 = pt 1 0, p_len0 = Num (sqrt 2), p_len1 = Num 1\<rparr>
   = \<lparr>p_p2 = pt (0 + sqrt 2 * cos (0 + pi / 4)) (0 + sqrt 2 * sin (0 + pi / 4))\<rparr>"
    using PassiveSegment_forward_Num [of "sqrt 2" 0 0 1 0 1] b
    by (simp only: c a arccos_inv_sqrt2) (simp add: base_len_def)
  then show ?thesis by (simp add: cos_45 sin_45)
qed

lemma PassiveSegment_forward_test_reversed:
  "PassiveSegment_forward
     \<lparr>p_p0 = pt 1 0, p_p1 = pt 0 0, p_len0 = Num 1, p_len1 = Num (sqrt 2)\<rparr>
   = \<lparr>p_p2 = pt 1 (- 1)\<rparr>"
proof -
  have c: "law_of_cosines 1 (sqrt 2) (base_len 1 0 0 0) = 0"
    by (simp add: law_of_cosines_def base_len_def)
  have a: "atan2 (0 - 0) (0 - 1) = pi" by (simp add: atan2_def)
  have "PassiveSegment_forward
     \<lparr>p_p0 = pt 1 0, p_p1 = pt 0 0, p_len0 = Num 1, p_len1 = Num (sqrt 2)\<rparr>
   = \<lparr>p_p2 = pt (1 + 1 * cos (pi + pi / 2)) (0 + 1 * sin (pi + pi / 2))\<rparr>"
    using PassiveSegment_forward_Num [of 1 1 0 0 0 "sqrt 2"]
    by (simp only: c a arccos_0) (simp add: base_len_def)
  moreover have "cos (pi + pi / 2) = 0" "sin (pi + pi / 2) = - 1"
    unfolding cos_add sin_add by simp_all
  ultimately show ?thesis by (simp only:) simp
qed

lemma reflect_across_test: "reflect_across (pt 0 0) (pt 1 0) (pt 1 1) = pt 1 (- 1)"
  by (simp add: reflect_across_def)

text \<open>The mirror image fixes the two points of the line and is its own inverse.\<close>

lemma reflect_across_fixes:
  assumes "pt ax ay \<noteq> pt bx by"
  shows "reflect_across (pt ax ay) (pt bx by) (pt ax ay) = pt ax ay"
    and "reflect_across (pt ax ay) (pt bx by) (pt bx by) = pt bx by"
proof -
  have nz: "(bx - ax)\<^sup>2 + (by - ay)\<^sup>2 \<noteq> 0"
    using assms by auto
  show "reflect_across (pt ax ay) (pt bx by) (pt ax ay) = pt ax ay"
    by (simp add: reflect_across_Num [OF nz])
  have "(bx - ax) * (bx - ax) + (by - ay) * (by - ay) = (bx - ax)\<^sup>2 + (by - ay)\<^sup>2"
    by (simp add: power2_eq_square)
  then show "reflect_across (pt ax ay) (pt bx by) (pt bx by) = pt bx by"
    using nz by (simp add: reflect_across_Num [OF nz])
qed


section \<open>Rounding to binary64\<close>

























section \<open>The passive segment on a thin triangle, in binary64\<close>








end
